theory Spec2Isabelle
  imports Complex_Main "HOL-Library.Sublist"
begin

section \<open>Data model (types/call.types.ts, entities/Call.entity.ts)\<close>

text \<open>
  Timestamps (\<open>Date\<close>) are milliseconds since the epoch. The enum \<open>CallStatus\<close> and
  the interfaces \<open>CallPayload\<close> and \<open>Call\<close> are taken field by field. The metadata bag
  is opaque to the engine; it is kept as a list of key/value pairs.
\<close>

type_synonym date = nat

datatype CallStatus = PENDING | IN_PROGRESS | COMPLETED | FAILED | EXPIRED

record CallPayload =
  to :: string
  scriptId :: string
  metadata :: "(string \<times> string) list option"

text \<open>
  \<open>Call\<close> is the public view; \<open>CallEntity\<close> is the table row, which has the fields of
  \<open>Call\<close> followed by \<open>updatedAt\<close> and \<open>externalCallId\<close>. The field \<open>id\<close> is written
  \<open>id_c\<close>, since \<open>id\<close> is the identity function of HOL.
\<close>

record Call =
  id_c :: string
  payload :: CallPayload
  status :: CallStatus
  attempts :: nat
  lastError :: "string option"
  createdAt :: date
  startedAt :: "date option"
  endedAt :: "date option"

record CallEntity = Call +
  updatedAt :: date
  externalCallId :: "string option"

text \<open>
  A value of \<open>Partial<CallEntity>\<close> handed to \<open>repository.update\<close>: every key is absent,
  present with the value \<open>undefined\<close>, or present with a value. The optional columns are
  typed \<open>string | undefined\<close> and \<open>Date | undefined\<close> in the entity, so \<open>null\<close> cannot
  be written through this type.
\<close>

datatype 'a field = Absent | Undefined | Value 'a

record CallUpdates =
  payload_u :: "CallPayload field"
  status_u :: "CallStatus field"
  attempts_u :: "nat field"
  lastError_u :: "string field"
  startedAt_u :: "date field"
  endedAt_u :: "date field"
  externalCallId_u :: "string field"

definition no_updates :: CallUpdates where
  "no_updates = \<lparr>payload_u = Absent, status_u = Absent, attempts_u = Absent,
     lastError_u = Absent, startedAt_u = Absent, endedAt_u = Absent,
     externalCallId_u = Absent\<rparr>"

section \<open>The table and the repository (repositories/call.repository.ts)\<close>

text \<open>
  The table \<open>calls\<close> is the list of its rows in insertion order. A query without
  \<open>ORDER BY\<close> that asks for one row (\<open>getOne\<close>, \<open>findOne\<close>) returns the first match.

  \<open>repository.update\<close> and the update query builder of TypeORM leave out of the
  \<open>SET\<close> clause every key whose value is \<open>undefined\<close>, exactly as an absent key, and
  stamp the \<open>@UpdateDateColumn\<close> with the time of the statement.
\<close>

type_synonym store = "CallEntity list"

definition set_col :: "'a field \<Rightarrow> 'a \<Rightarrow> 'a" where
  "set_col f old = (case f of Value v \<Rightarrow> v | Undefined \<Rightarrow> old | Absent \<Rightarrow> old)"

definition set_nullable :: "'a field \<Rightarrow> 'a option \<Rightarrow> 'a option" where
  "set_nullable f old = (case f of Value v \<Rightarrow> Some v | Undefined \<Rightarrow> old | Absent \<Rightarrow> old)"

definition apply_updates :: "date \<Rightarrow> CallUpdates \<Rightarrow> CallEntity \<Rightarrow> CallEntity" where
  "apply_updates now u r =
     r\<lparr>payload := set_col (payload_u u) (payload r),
       status := set_col (status_u u) (status r),
       attempts := set_col (attempts_u u) (attempts r),
       lastError := set_nullable (lastError_u u) (lastError r),
       startedAt := set_nullable (startedAt_u u) (startedAt r),
       endedAt := set_nullable (endedAt_u u) (endedAt r),
       externalCallId := set_nullable (externalCallId_u u) (externalCallId r),
       updatedAt := now\<rparr>"

definition findById :: "string \<Rightarrow> store \<Rightarrow> CallEntity option" where
  "findById i s = find (\<lambda>r. id_c r = i) s"

definition update_where :: "(CallEntity \<Rightarrow> bool) \<Rightarrow> date \<Rightarrow> CallUpdates \<Rightarrow> store \<Rightarrow> store" where
  "update_where P now u s = map (\<lambda>r. if P r then apply_updates now u r else r) s"

definition affected :: "(CallEntity \<Rightarrow> bool) \<Rightarrow> store \<Rightarrow> nat" where
  "affected P s = length (filter P s)"

definition updateById :: "date \<Rightarrow> string \<Rightarrow> CallUpdates \<Rightarrow> store \<Rightarrow> CallEntity option \<times> store" where
  "updateById now i u s =
     (let s' = update_where (\<lambda>r. id_c r = i) now u s in (findById i s', s'))"


text \<open>
  \<open>repository.save\<close> of a new row: the database generates the primary key \<open>new_id\<close>
  and stamps \<open>createdAt\<close> and \<open>updatedAt\<close>; the nullable columns start as \<open>NULL\<close>.
\<close>

definition create :: "string \<Rightarrow> date \<Rightarrow> CallPayload \<Rightarrow> CallStatus \<Rightarrow> nat \<Rightarrow> store
    \<Rightarrow> CallEntity \<times> store" where
  "create new_id now p st n s =
     (let call = \<lparr>id_c = new_id, payload = p, status = st, attempts = n, lastError = None,
                   createdAt = now, startedAt = None, endedAt = None,
                   updatedAt = now, externalCallId = None\<rparr>
      in (call, s @ [call]))"

text \<open>\<open>ORDER BY createdAt ASC\<close> with \<open>getOne\<close>: the row with the least \<open>createdAt\<close>.\<close>

fun earliest :: "CallEntity list \<Rightarrow> CallEntity option" where
  "earliest [] = None"
| "earliest (r # rs) =
     (case earliest rs of
        None \<Rightarrow> Some r
      | Some r' \<Rightarrow> if createdAt r \<le> createdAt r' then Some r else Some r')"

definition select_oldest_pending :: "store \<Rightarrow> CallEntity option" where
  "select_oldest_pending s = earliest (filter (\<lambda>r. status r = PENDING) s)"

definition claim_updates :: "date \<Rightarrow> CallUpdates" where
  "claim_updates now = no_updates\<lparr>status_u := Value IN_PROGRESS, startedAt_u := Value now\<rparr>"

definition claim_where :: "string \<Rightarrow> CallEntity \<Rightarrow> bool" where
  "claim_where i r = (id_c r = i \<and> status r = PENDING)"

text \<open>
  \<open>fetchAndLockPendingCall\<close>, run without interruption: the select, the update
  \<open>WHERE id = :id AND status = 'PENDING'\<close> with its count of affected rows, and the
  final \<open>findOne\<close>. The table of the model answers every statement, so the \<open>catch\<close>
  branch, which returns \<open>null\<close> for a failed statement, is never entered.
\<close>

definition fetchAndLockPendingCall :: "date \<Rightarrow> store \<Rightarrow> CallEntity option \<times> store" where
  "fetchAndLockPendingCall now s =
     (case select_oldest_pending s of
        None \<Rightarrow> (None, s)
      | Some pendingCall \<Rightarrow>
          (let n = affected (claim_where (id_c pendingCall)) s;
               s' = update_where (claim_where (id_c pendingCall)) now (claim_updates now) s
           in if n = 0 then (None, s') else (findById (id_c pendingCall) s', s')))"

definition findByExternalCallId :: "string \<Rightarrow> store \<Rightarrow> CallEntity option" where
  "findByExternalCallId x s = find (\<lambda>r. externalCallId r = Some x) s"

definition findActiveCallByPhoneNumber :: "string \<Rightarrow> store \<Rightarrow> CallEntity option" where
  "findActiveCallByPhoneNumber phoneNumber s =
     find (\<lambda>r. status r \<in> set [PENDING, IN_PROGRESS] \<and> to (payload r) = phoneNumber) s"

section \<open>The in-memory queue (services/queue.service.ts)\<close>

type_synonym queue = "(string \<times> date) list"

definition enqueueCallWithDelay :: "date \<Rightarrow> string \<Rightarrow> nat \<Rightarrow> queue \<Rightarrow> queue" where
  "enqueueCallWithDelay now callId delayMs q = q @ [(callId, now + delayMs)]"

definition dequeueCall :: "date \<Rightarrow> queue \<Rightarrow> string option \<times> queue" where
  "dequeueCall now q =
     (case find (\<lambda>item. snd item \<le> now) q of
        None \<Rightarrow> (None, q)
      | Some item \<Rightarrow> (Some (fst item), remove1 item q))"

section \<open>The call service (services/call.service.ts)\<close>

text \<open>
  The errors a dispatch can raise: the two classes of \<open>aiCall.service.ts\<close> and a plain
  \<open>Error\<close>. Only an instance of \<open>RetryableError\<close> passes \<open>instanceof RetryableError\<close>.
\<close>

datatype js_error = RetryableError string | NonRetryableError string | Error string

fun message :: "js_error \<Rightarrow> string" where
  "message (RetryableError m) = m"
| "message (NonRetryableError m) = m"
| "message (Error m) = m"

fun instanceof_RetryableError :: "js_error \<Rightarrow> bool" where
  "instanceof_RetryableError (RetryableError m) = True"
| "instanceof_RetryableError (NonRetryableError m) = False"
| "instanceof_RetryableError (Error m) = False"

text \<open>
  The state the service works on: the table and the queue of its \<open>QueueService\<close>.
  \<open>maxRetryAttempts\<close> is \<open>parseInt(MAX_RETRY_ATTEMPTS || '3')\<close>; a value that is
  negative or not a number makes \<open>newAttempts < maxRetryAttempts\<close> false for every
  call, as \<open>0\<close> does. Each operation reads the clock once (\<open>now\<close>). The calls of
  \<open>releaseSlot\<close> only read a count and log it.
\<close>

record service =
  calls :: store
  queue :: queue

definition handleCallFailure :: "nat \<Rightarrow> date \<Rightarrow> CallEntity \<Rightarrow> js_error \<Rightarrow> service \<Rightarrow> service" where
  "handleCallFailure maxRetryAttempts now callEntity error sv =
     (if id_c callEntity = [] then sv
      else
        let newAttempts = attempts callEntity + 1 in
        if instanceof_RetryableError error \<and> newAttempts < maxRetryAttempts then
          let s' = snd (updateById now (id_c callEntity)
                     (no_updates\<lparr>status_u := Value PENDING,
                                 attempts_u := Value newAttempts,
                                 lastError_u := Value (message error),
                                 startedAt_u := Undefined\<rparr>) (calls sv));
              backoffDelay = 2 ^ newAttempts * 1000
          in \<lparr>calls = s', queue = enqueueCallWithDelay now (id_c callEntity) backoffDelay (queue sv)\<rparr>
        else
          sv\<lparr>calls := snd (updateById now (id_c callEntity)
                     (no_updates\<lparr>status_u := Value FAILED,
                                 attempts_u := Value newAttempts,
                                 lastError_u := Value (message error),
                                 endedAt_u := Value now\<rparr>) (calls sv))\<rparr>)"

text \<open>
  The completion signal. \<open>completedAt\<close> is the instant its ISO string denotes
  (\<open>new Date(payload.completedAt)\<close>).
\<close>

datatype CallbackStatus = CB_COMPLETED | CB_FAILED | CB_BUSY | CB_NO_ANSWER

fun callback_status_text :: "CallbackStatus \<Rightarrow> string" where
  "callback_status_text CB_COMPLETED = ''COMPLETED''"
| "callback_status_text CB_FAILED = ''FAILED''"
| "callback_status_text CB_BUSY = ''BUSY''"
| "callback_status_text CB_NO_ANSWER = ''NO_ANSWER''"

record WebhookCallbackPayload =
  callId :: string
  status_w :: CallbackStatus
  durationSec :: "nat option"
  completedAt :: date

definition handleWebhookCallback :: "date \<Rightarrow> WebhookCallbackPayload \<Rightarrow> store \<Rightarrow> store" where
  "handleWebhookCallback now p s =
     (case findByExternalCallId (callId p) s of
        None \<Rightarrow> s
      | Some callEntity \<Rightarrow>
          (let isSuccess = (status_w p = CB_COMPLETED);
               finalStatus = (if isSuccess then COMPLETED else FAILED)
           in snd (updateById now (id_c callEntity)
                 (no_updates\<lparr>status_u := Value finalStatus,
                             endedAt_u := Value (completedAt p),
                             lastError_u := (if isSuccess then Undefined
                                else Value (''AI call '' @ callback_status_text (status_w p)))\<rparr>) s)))"

definition entityToCall :: "CallEntity \<Rightarrow> Call" where
  "entityToCall entity =
     \<lparr>id_c = id_c entity, payload = payload entity, status = status entity,
      attempts = attempts entity, lastError = lastError entity,
      createdAt = createdAt entity, startedAt = startedAt entity, endedAt = endedAt entity\<rparr>"


text \<open>
  \<open>createCall\<close>: the check for an active call of the same number, then the insert.
  The error is a plain \<open>Error\<close> whose message quotes the number and the status found.
\<close>

fun status_text :: "CallStatus \<Rightarrow> string" where
  "status_text PENDING = ''PENDING''"
| "status_text IN_PROGRESS = ''IN_PROGRESS''"
| "status_text COMPLETED = ''COMPLETED''"
| "status_text FAILED = ''FAILED''"
| "status_text EXPIRED = ''EXPIRED''"

record CreateCallRequest =
  to_r :: string
  scriptId_r :: string
  metadata_r :: "(string \<times> string) list option"

definition createCall :: "string \<Rightarrow> date \<Rightarrow> CreateCallRequest \<Rightarrow> store \<Rightarrow> js_error + Call \<times> store" where
  "createCall new_id now request s =
     (case findActiveCallByPhoneNumber (to_r request) s of
        Some existingCall \<Rightarrow>
          Inl (Error (''Call already active for phone number: '' @ to_r request
                      @ '' (Status: '' @ status_text (status existingCall) @ '')''))
      | None \<Rightarrow>
          (let (callEntity, s') =
                 create new_id now
                   \<lparr>to = to_r request, scriptId = scriptId_r request, metadata = metadata_r request\<rparr>
                   PENDING 0 s
           in Inr (entityToCall callEntity, s')))"

text \<open>
  \<open>updateCall\<close>. The request body is parsed JSON, so a key of the payload delta is
  either absent (\<open>None\<close>) or carries a value; the spread
  \<open>{ ...existingCall.payload, ...request.payload }\<close> lets every key of the delta win and
  keeps the others. A request without \<open>payload\<close> spreads nothing.
\<close>

record PartialCallPayload =
  to_d :: "string option"
  scriptId_d :: "string option"
  metadata_d :: "(string \<times> string) list option"

definition spread :: "CallPayload \<Rightarrow> PartialCallPayload option \<Rightarrow> CallPayload" where
  "spread old delta =
     (case delta of
        None \<Rightarrow> old
      | Some d \<Rightarrow>
          \<lparr>to = (case to_d d of Some v \<Rightarrow> v | None \<Rightarrow> to old),
           scriptId = (case scriptId_d d of Some v \<Rightarrow> v | None \<Rightarrow> scriptId old),
           metadata = (case metadata_d d of Some v \<Rightarrow> Some v | None \<Rightarrow> metadata old)\<rparr>)"

definition updateCall :: "date \<Rightarrow> string \<Rightarrow> PartialCallPayload option \<Rightarrow> store
    \<Rightarrow> js_error + Call option \<times> store" where
  "updateCall now i request_payload s =
     (case findById i s of
        None \<Rightarrow> Inr (None, s)
      | Some existingCall \<Rightarrow>
          if status existingCall \<noteq> PENDING then
            Inl (Error ''Can only update calls with PENDING status'')
          else
            (let (updatedEntity, s') =
                   updateById now i
                     (no_updates\<lparr>payload_u := Value (spread (payload existingCall) request_payload)\<rparr>) s
             in Inr (map_option entityToCall updatedEntity, s')))"

section \<open>Dispatch and failure classification (services/aiCall.service.ts)\<close>

text \<open>
  What the provider's endpoint does with a request: no HTTP response at all (a transport
  error with its code: \<open>ECONNREFUSED\<close> for a refused connection, \<open>ETIMEDOUT\<close> for a
  socket that timed out, \<open>ECONNRESET\<close> for a connection that was reset, and
  \<open>ECONNABORTED\<close> when the \<open>timeout: 30000\<close> of the request itself runs out), or a
  response with a status and a body. \<open>axios.post\<close> with its default \<open>validateStatus\<close> resolves for a
  status from 200 to 299 and rejects otherwise with an error that carries the response.
  The body has the type \<open>AICallResponse\<close>, whose \<open>callId\<close> is the correlation id.
\<close>

record AICallResponse =
  callId_a :: string
  status_a :: string

datatype provider_reply = NoResponse string string | HttpReply nat AICallResponse

record caught_error =
  code :: "string option"
  response_status :: "nat option"
  message_c :: string

datatype axios_result = Resolved nat AICallResponse | Rejected caught_error

fun digit_char :: "nat \<Rightarrow> char" where
  "digit_char n = char_of (48 + n mod 10)"

fun show_nat :: "nat \<Rightarrow> string" where
  "show_nat n = (if n < 10 then [digit_char n] else show_nat (n div 10) @ [digit_char n])"

definition axios_post :: "provider_reply \<Rightarrow> axios_result" where
  "axios_post reply =
     (case reply of
        NoResponse c m \<Rightarrow> Rejected \<lparr>code = Some c, response_status = None, message_c = m\<rparr>
      | HttpReply st body \<Rightarrow>
          if 200 \<le> st \<and> st < 300 then Resolved st body
          else Rejected \<lparr>code = (if 400 \<le> st \<and> st < 500 then Some ''ERR_BAD_REQUEST''
                                  else if 500 \<le> st \<and> st < 600 then Some ''ERR_BAD_RESPONSE''
                                  else None),
                         response_status = Some st,
                         message_c = ''Request failed with status code '' @ show_nat st\<rparr>)"

definition isRetryableError :: "caught_error \<Rightarrow> bool" where
  "isRetryableError error =
     (if code error = Some ''ECONNREFUSED'' \<or> code error = Some ''ETIMEDOUT'' then True
      else if (case response_status error of Some st \<Rightarrow> st \<ge> 500 | None \<Rightarrow> False) then True
      else if response_status error = Some 429 then True
      else False)"

definition classify :: "caught_error \<Rightarrow> js_error" where
  "classify error =
     (if isRetryableError error then RetryableError (message_c error)
      else NonRetryableError (message_c error))"

text \<open>
  \<open>initiateCall\<close>: the \<open>Error\<close> thrown for a resolved response other than 202 is thrown
  inside the \<open>try\<close> block, so the \<open>catch\<close> classifies it like any other error; it has
  neither \<open>code\<close> nor \<open>response\<close>.
\<close>

definition initiateCall :: "provider_reply \<Rightarrow> js_error + AICallResponse" where
  "initiateCall reply =
     (case axios_post reply of
        Resolved st body \<Rightarrow>
          if st = 202 then Inr body
          else Inl (classify \<lparr>code = None, response_status = None,
                       message_c = ''Unexpected response status: '' @ show_nat st\<rparr>)
      | Rejected error \<Rightarrow> Inl (classify error))"


section \<open>Request validation (utils/validation.ts) and the controller (controllers/call.controller.ts)\<close>

text \<open>
  The body of a create request before validation: each key may be missing. The schema
  requires \<open>to\<close> to match \<open>/^\+\d{10,15}$/\<close> and \<open>scriptId\<close> to have 1 to 100
  characters; with \<open>abortEarly: false\<close> every violation is reported, named here by the
  error type of the validator and the key.
\<close>

record CreateCallBody =
  to_b :: "string option"
  scriptId_b :: "string option"
  metadata_b :: "(string \<times> string) list option"

datatype violation = any_required string | string_empty string
  | string_pattern_base string | string_max string

definition is_digit :: "char \<Rightarrow> bool" where
  "is_digit c = (c \<in> set ''0123456789'')"

definition phone_pattern :: "string \<Rightarrow> bool" where
  "phone_pattern t =
     (case t of
        [] \<Rightarrow> False
      | c # ds \<Rightarrow> c = CHR ''+'' \<and> 10 \<le> length ds \<and> length ds \<le> 15 \<and> list_all is_digit ds)"

definition validate_to :: "string option \<Rightarrow> violation list" where
  "validate_to v =
     (case v of
        None \<Rightarrow> [any_required ''to'']
      | Some t \<Rightarrow> if t = [] then [string_empty ''to'']
                  else if \<not> phone_pattern t then [string_pattern_base ''to'']
                  else [])"

definition validate_scriptId :: "string option \<Rightarrow> violation list" where
  "validate_scriptId v =
     (case v of
        None \<Rightarrow> [any_required ''scriptId'']
      | Some t \<Rightarrow> if t = [] then [string_empty ''scriptId'']
                  else if length t > 100 then [string_max ''scriptId'']
                  else [])"

definition validateCreateCall :: "CreateCallBody \<Rightarrow> violation list + CreateCallRequest" where
  "validateCreateCall body =
     (case (to_b body, scriptId_b body, validate_to (to_b body) @ validate_scriptId (scriptId_b body)) of
        (Some t, Some sc, []) \<Rightarrow> Inr \<lparr>to_r = t, scriptId_r = sc, metadata_r = metadata_b body\<rparr>
      | (_, _, details) \<Rightarrow> Inl details)"

text \<open>\<open>String.prototype.includes\<close>: the argument occurs somewhere in the string.\<close>

fun includes_str :: "string \<Rightarrow> string \<Rightarrow> bool" where
  "includes_str [] sub = (sub = [])"
| "includes_str (c # cs) sub = (prefix sub (c # cs) \<or> includes_str cs sub)"

text \<open>
  A response is its HTTP status with the JSON body: the data of a success, the details
  of a validation error, or the pair \<open>error\<close>, \<open>message\<close>.
\<close>

datatype 'a response = Success nat 'a | ValidationFailure nat "violation list"
  | Failure nat string string

definition createCall_controller :: "string \<Rightarrow> date \<Rightarrow> CreateCallBody \<Rightarrow> store
    \<Rightarrow> Call response \<times> store" where
  "createCall_controller new_id now body s =
     (case validateCreateCall body of
        Inl details \<Rightarrow> (ValidationFailure 400 details, s)
      | Inr request \<Rightarrow>
          (case createCall new_id now request s of
             Inr (call, s') \<Rightarrow> (Success 201 call, s')
           | Inl error \<Rightarrow>
               if includes_str (message error) ''already in progress''
               then (Failure 409 ''Conflict'' (message error), s)
               else (Failure 500 ''Internal server error'' ''Failed to create call'', s)))"











section \<open>Concurrent claimers\<close>

text \<open>
  \<open>fetchAndLockPendingCall\<close> awaits three statements, and the database runs each of
  them atomically. A claimer is at one of four points: before the select, holding the
  row it selected, after an update that affected a row, or returned. A schedule is the
  order in which the claimers' statements reach the database, each with the time of
  the clock then.
\<close>

datatype claimer = Start | Selected CallEntity | Updated string | Returned "CallEntity option"

definition step :: "date \<Rightarrow> claimer \<Rightarrow> store \<Rightarrow> claimer \<times> store" where
  "step now c s =
     (case c of
        Start \<Rightarrow>
          (case select_oldest_pending s of
             None \<Rightarrow> (Returned None, s)
           | Some pendingCall \<Rightarrow> (Selected pendingCall, s))
      | Selected pendingCall \<Rightarrow>
          (let n = affected (claim_where (id_c pendingCall)) s;
               s' = update_where (claim_where (id_c pendingCall)) now (claim_updates now) s
           in if n = 0 then (Returned None, s') else (Updated (id_c pendingCall), s'))
      | Updated i \<Rightarrow> (Returned (findById i s), s)
      | Returned r \<Rightarrow> (Returned r, s))"

definition exec :: "claimer list \<times> store \<Rightarrow> nat \<times> date \<Rightarrow> claimer list \<times> store" where
  "exec st ev =
     (let (cs, s) = st; (i, now) = ev in
      if i < length cs then (let (c', s') = step now (cs ! i) s in (cs[i := c'], s'))
      else (cs, s))"

definition run :: "(nat \<times> date) list \<Rightarrow> claimer list \<times> store \<Rightarrow> claimer list \<times> store" where
  "run schedule st = foldl exec st schedule"

definition claimed :: "string \<Rightarrow> claimer \<Rightarrow> bool" where
  "claimed i c =
     (case c of
        Returned (Some r) \<Rightarrow> id_c r = i \<and> status r = IN_PROGRESS \<and> startedAt r \<noteq> None
      | _ \<Rightarrow> False)"


section \<open>Example data\<close>

text \<open>
  A provider that does not answer within the 30 seconds of the request, and a
  connection that is reset.
\<close>

definition request_timeout :: provider_reply where
  "request_timeout = NoResponse ''ECONNABORTED'' ''timeout of 30000ms exceeded''"

definition connection_reset :: provider_reply where
  "connection_reset = NoResponse ''ECONNRESET'' ''read ECONNRESET''"

definition example_call :: CallEntity where
  "example_call =
     \<lparr>id_c = ''c1'',
      payload = \<lparr>to = ''+966501234567'', scriptId = ''welcomeFlow'', metadata = None\<rparr>,
      status = IN_PROGRESS, attempts = 0, lastError = None, createdAt = 1000,
      startedAt = Some 2000, endedAt = None, updatedAt = 2000, externalCallId = None\<rparr>"

definition example_service :: service where
  "example_service = \<lparr>calls = [example_call], queue = []\<rparr>"


text \<open>A table with one row waiting and the order of nine statements of three claimers.\<close>

definition pending_call :: CallEntity where
  "pending_call =
     \<lparr>id_c = ''c7'',
      payload = \<lparr>to = ''+966500000007'', scriptId = ''welcomeFlow'', metadata = None\<rparr>,
      status = PENDING, attempts = 0, lastError = None, createdAt = 1000,
      startedAt = None, endedAt = None, updatedAt = 1000, externalCallId = None\<rparr>"

definition race_schedule :: "(nat \<times> date) list" where
  "race_schedule = [(0, 10), (1, 11), (1, 12), (0, 13), (2, 14), (1, 15), (0, 16), (2, 17), (2, 18)]"

text \<open>
  A call that was dispatched and awaits its completion signal, the same call after a
  \<open>COMPLETED\<close> signal, two signals for it, a create request for its number and a
  payload delta.
\<close>

definition dispatched_call :: CallEntity where
  "dispatched_call = example_call\<lparr>externalCallId := Some ''ext-42''\<rparr>"

definition completed_call :: CallEntity where
  "completed_call = dispatched_call\<lparr>status := COMPLETED, endedAt := Some 3000\<rparr>"

definition busy_signal :: WebhookCallbackPayload where
  "busy_signal = \<lparr>callId = ''ext-42'', status_w = CB_BUSY, durationSec = None, completedAt = 9000\<rparr>"

definition completed_signal :: WebhookCallbackPayload where
  "completed_signal = \<lparr>callId = ''ext-42'', status_w = CB_COMPLETED, durationSec = Some 42, completedAt = 9000\<rparr>"

definition active_body :: CreateCallBody where
  "active_body = \<lparr>to_b = Some ''+966501234567'', scriptId_b = Some ''welcomeFlow'', metadata_b = None\<rparr>"

definition script_delta :: PartialCallPayload where
  "script_delta = \<lparr>to_d = None, scriptId_d = Some ''newScript'', metadata_d = Some [(''priority'', ''high'')]\<rparr>"

section \<open>Terminal rows\<close>

text \<open>
  A row is terminal when its status is \<open>COMPLETED\<close>, \<open>FAILED\<close> or \<open>EXPIRED\<close>. An
  operation keeps the terminal rows when the table after it has, at every position of
  a terminal row, the same row. \<open>forget_updatedAt\<close> compares rows up to the stamp
  \<open>updatedAt\<close>.
\<close>

definition terminal :: "CallEntity \<Rightarrow> bool" where
  "terminal r = (status r \<in> set [COMPLETED, FAILED, EXPIRED])"

definition keeps_terminal :: "store \<Rightarrow> store \<Rightarrow> bool" where
  "keeps_terminal s s' = list_all2 (\<lambda>r r'. terminal r \<longrightarrow> r' = r) s s'"

definition forget_updatedAt :: "CallEntity \<Rightarrow> CallEntity" where
  "forget_updatedAt r = r\<lparr>updatedAt := 0\<rparr>"

section \<open>The invariant of the claim race\<close>

text \<open>
  While the row \<open>i\<close> is the only pending one, every claimer is before its select or
  holds the row \<open>i\<close>. Once an update has claimed it, no row is pending, the row \<open>i\<close> is
  \<open>IN_PROGRESS\<close> with \<open>startedAt\<close> set, exactly one claimer has won (it is past its
  update or has returned the row), and the others can only return nothing.
\<close>

definition pending :: "store \<Rightarrow> CallEntity list" where
  "pending s = filter (\<lambda>r. status r = PENDING) s"

definition waiting :: "string \<Rightarrow> claimer \<Rightarrow> bool" where
  "waiting i c = (c = Start \<or> (\<exists>q. c = Selected q \<and> id_c q = i))"

definition lost :: "string \<Rightarrow> claimer \<Rightarrow> bool" where
  "lost i c = (waiting i c \<or> c = Returned None)"

definition won :: "string \<Rightarrow> claimer \<Rightarrow> bool" where
  "won i c = (c = Updated i \<or> claimed i c)"

definition before_claim :: "string \<Rightarrow> claimer list \<times> store \<Rightarrow> bool" where
  "before_claim i st =
     (distinct (map id_c (snd st)) \<and> (\<exists>p. pending (snd st) = [p] \<and> id_c p = i)
      \<and> (\<forall>c \<in> set (fst st). waiting i c))"

definition after_claim :: "string \<Rightarrow> claimer list \<times> store \<Rightarrow> bool" where
  "after_claim i st =
     (distinct (map id_c (snd st)) \<and> pending (snd st) = []
      \<and> (\<exists>r. findById i (snd st) = Some r \<and> status r = IN_PROGRESS \<and> startedAt r \<noteq> None)
      \<and> (\<forall>c \<in> set (fst st). won i c \<or> lost i c)
      \<and> length (filter (won i) (fst st)) = 1)"

fun rank :: "claimer \<Rightarrow> nat" where
  "rank Start = 0"
| "rank (Selected q) = 1"
| "rank (Updated i) = 2"
| "rank (Returned r) = 3"

section \<open>Lemmas on the repository\<close>

lemma id_c_apply_updates: "id_c (apply_updates now u r) = id_c r"
  by (simp add: apply_updates_def)

lemma findById_update_where:
  "findById i (update_where (\<lambda>r. id_c r = i) now u s) = map_option (apply_updates now u) (findById i s)"
  by (induction s) (simp_all add: findById_def update_where_def id_c_apply_updates)

lemma findById_updateById:
  "findById i (snd (updateById now i u s)) = map_option (apply_updates now u) (findById i s)"
  by (simp add: updateById_def Let_def findById_update_where)

lemma find_Some_mem: "find P s = Some x \<Longrightarrow> P x \<and> x \<in> set s"
  by (induction s) (auto split: if_splits)

lemma findById_exists: "e \<in> set s \<Longrightarrow> \<exists>r. findById (id_c e) s = Some r"
  by (cases "findById (id_c e) s") (auto simp: findById_def find_None_iff)

section \<open>Retry exhaustion and permanent failure\<close>

text \<open>
  C4. For every call whose row is in the table and every failure that is not retryable,
  or whose new attempt count \<open>attempts + 1\<close> has reached \<open>maxRetryAttempts\<close>,
  \<open>handleCallFailure\<close> leaves the row with status \<open>FAILED\<close>, \<open>attempts\<close> equal to the new
  count, \<open>lastError\<close> equal to the message of the failure and \<open>endedAt\<close> equal to the
  time of the failure, and adds nothing to the queue. The witness runs the third
  retryable failure with \<open>maxRetryAttempts = 3\<close> and a non-retryable first failure.
\<close>

theorem handleCallFailure_terminal:
  assumes "id_c c \<noteq> []"
    and "findById (id_c c) (calls sv) = Some r"
    and "\<not> instanceof_RetryableError e \<or> maxRetryAttempts \<le> attempts c + 1"
  shows "(\<exists>r'. findById (id_c c) (calls (handleCallFailure maxRetryAttempts now c e sv)) = Some r'
           \<and> status r' = FAILED \<and> attempts r' = attempts c + 1
           \<and> lastError r' = Some (message e) \<and> endedAt r' = Some now)
       \<and> queue (handleCallFailure maxRetryAttempts now c e sv) = queue sv"
  using assms
  by (auto simp add: handleCallFailure_def Let_def findById_updateById apply_updates_def
      set_col_def set_nullable_def no_updates_def)

theorem handleCallFailure_terminal_witness:
  "(\<exists>r'. findById ''c1'' (calls (handleCallFailure 3 5000 (example_call\<lparr>attempts := 2\<rparr>)
              (RetryableError ''connect ECONNREFUSED'') example_service)) = Some r'
         \<and> status r' = FAILED \<and> attempts r' = 3
         \<and> lastError r' = Some ''connect ECONNREFUSED'' \<and> endedAt r' = Some 5000)
   \<and> (\<exists>r'. findById ''c1'' (calls (handleCallFailure 3 5000 example_call
              (NonRetryableError ''Request failed with status code 400'') example_service)) = Some r'
         \<and> status r' = FAILED \<and> attempts r' = 1
         \<and> lastError r' = Some ''Request failed with status code 400'' \<and> endedAt r' = Some 5000)"
proof -
  have i: "id_c example_call = ''c1''" "id_c (example_call\<lparr>attempts := 2\<rparr>) = ''c1''"
    by (simp_all add: example_call_def)
  have f: "findById ''c1'' (calls example_service) = Some example_call"
    by (simp add: example_service_def example_call_def findById_def)
  have a: "attempts example_call = 0" "attempts (example_call\<lparr>attempts := 2\<rparr>) = 2"
    by (simp_all add: example_call_def)
  have "\<exists>r'. findById ''c1'' (calls (handleCallFailure 3 5000 (example_call\<lparr>attempts := 2\<rparr>)
              (RetryableError ''connect ECONNREFUSED'') example_service)) = Some r'
         \<and> status r' = FAILED \<and> attempts r' = 3
         \<and> lastError r' = Some ''connect ECONNREFUSED'' \<and> endedAt r' = Some 5000"
    using handleCallFailure_terminal [of "example_call\<lparr>attempts := 2\<rparr>" example_service
        example_call "RetryableError ''connect ECONNREFUSED''" 3 5000] i f a
    by simp
  moreover have "\<exists>r'. findById ''c1'' (calls (handleCallFailure 3 5000 example_call
              (NonRetryableError ''Request failed with status code 400'') example_service)) = Some r'
         \<and> status r' = FAILED \<and> attempts r' = 1
         \<and> lastError r' = Some ''Request failed with status code 400'' \<and> endedAt r' = Some 5000"
    using handleCallFailure_terminal [of example_call example_service
        example_call "NonRetryableError ''Request failed with status code 400''" 3 5000] i f a
    by simp
  ultimately show ?thesis by blast
qed

section \<open>The completion correlator\<close>

text \<open>
  C6. For every completion signal whose correlation id matches a row, the row ends with
  status \<open>COMPLETED\<close> for the outcome \<open>COMPLETED\<close>, and with status \<open>FAILED\<close> and
  \<open>lastError\<close> equal to \<open>AI call\<close> followed by the outcome for each of \<open>FAILED\<close>,
  \<open>BUSY\<close> and \<open>NO_ANSWER\<close>; in all four cases \<open>endedAt\<close> is the \<open>completedAt\<close> of
  the signal.
\<close>

theorem handleWebhookCallback_mapping:
  assumes "findByExternalCallId (callId p) s = Some e"
  shows "\<exists>r'. findById (id_c e) (handleWebhookCallback now p s) = Some r'
           \<and> (status_w p = CB_COMPLETED \<longrightarrow> status r' = COMPLETED)
           \<and> (status_w p = CB_FAILED \<longrightarrow> status r' = FAILED \<and> lastError r' = Some ''AI call FAILED'')
           \<and> (status_w p = CB_BUSY \<longrightarrow> status r' = FAILED \<and> lastError r' = Some ''AI call BUSY'')
           \<and> (status_w p = CB_NO_ANSWER \<longrightarrow> status r' = FAILED \<and> lastError r' = Some ''AI call NO_ANSWER'')
           \<and> endedAt r' = Some (completedAt p)"
proof -
  from assms have "e \<in> set s"
    by (auto simp: findByExternalCallId_def dest: find_Some_mem)
  then obtain r where r: "findById (id_c e) s = Some r"
    using findById_exists by blast
  show ?thesis
    using assms r
    by (cases "status_w p")
      (simp_all add: handleWebhookCallback_def Let_def findById_updateById apply_updates_def
        set_col_def set_nullable_def no_updates_def)
qed


theorem handleWebhookCallback_mapping_witness:
  "findByExternalCallId (callId busy_signal) [dispatched_call] = Some dispatched_call
   \<and> (\<exists>r'. findById ''c1'' (handleWebhookCallback 9500 busy_signal [dispatched_call]) = Some r'
         \<and> status r' = FAILED \<and> lastError r' = Some ''AI call BUSY'' \<and> endedAt r' = Some 9000)
   \<and> findByExternalCallId (callId completed_signal) [dispatched_call] = Some dispatched_call
   \<and> (\<exists>r'. findById ''c1'' (handleWebhookCallback 9500 completed_signal [dispatched_call]) = Some r'
         \<and> status r' = COMPLETED \<and> endedAt r' = Some 9000)"
proof -
  have b: "findByExternalCallId (callId busy_signal) [dispatched_call] = Some dispatched_call"
    by (simp add: findByExternalCallId_def busy_signal_def dispatched_call_def)
  have c: "findByExternalCallId (callId completed_signal) [dispatched_call] = Some dispatched_call"
    by (simp add: findByExternalCallId_def completed_signal_def dispatched_call_def)
  have i: "id_c dispatched_call = ''c1''"
    by (simp add: dispatched_call_def example_call_def)
  have s: "status_w busy_signal = CB_BUSY" "completedAt busy_signal = 9000"
    "status_w completed_signal = CB_COMPLETED" "completedAt completed_signal = 9000"
    by (simp_all add: busy_signal_def completed_signal_def)
  show ?thesis
    using b c handleWebhookCallback_mapping [OF b, of 9500]
      handleWebhookCallback_mapping [OF c, of 9500]
    unfolding i s by auto
qed

section \<open>The claim race\<close>

lemma map_id_update_where: "map id_c (update_where P now u s) = map id_c s"
  by (simp add: update_where_def id_c_apply_updates)

lemma findById_update_where_gen:
  "findById i (update_where P now u s) =
     map_option (\<lambda>r. if P r then apply_updates now u r else r) (findById i s)"
  by (induction s) (simp_all add: findById_def update_where_def id_c_apply_updates)

lemma findById_distinct:
  "distinct (map id_c s) \<Longrightarrow> p \<in> set s \<Longrightarrow> findById (id_c p) s = Some p"
  by (induction s) (auto simp: findById_def)

lemma update_where_none: "\<forall>r \<in> set s. \<not> P r \<Longrightarrow> update_where P now u s = s"
  by (induction s) (simp_all add: update_where_def)

lemma pending_empty_iff: "pending s = [] \<longleftrightarrow> (\<forall>r \<in> set s. status r \<noteq> PENDING)"
  by (simp add: pending_def filter_empty_conv)

lemma status_claimed: "status (apply_updates now (claim_updates now) r) = IN_PROGRESS"
  "startedAt (apply_updates now (claim_updates now) r) = Some now"
  by (simp_all add: apply_updates_def claim_updates_def no_updates_def set_col_def set_nullable_def)

lemma pending_single: "pending s = [p] \<Longrightarrow> p \<in> set s \<and> status p = PENDING"
proof -
  assume "pending s = [p]"
  then have "p \<in> set (pending s)" by simp
  then show ?thesis by (simp add: pending_def)
qed

lemma pending_after_claim:
  assumes "pending s = [p]" and "id_c p = i"
  shows "pending (update_where (claim_where i) now (claim_updates now) s) = []"
proof -
  have "\<forall>r \<in> set s. status r = PENDING \<longrightarrow> claim_where i r"
  proof (intro ballI impI)
    fix r assume "r \<in> set s" "status r = PENDING"
    then have "r \<in> set (pending s)" by (simp add: pending_def)
    with assms show "claim_where i r" using pending_single[OF assms(1)] by (simp add: claim_where_def)
  qed
  then show ?thesis
    by (auto simp: pending_empty_iff update_where_def status_claimed)
qed

lemma length_filter_update:
  "k < length xs \<Longrightarrow>
   length (filter P (xs[k := y])) + (if P (xs ! k) then 1 else 0)
     = length (filter P xs) + (if P y then 1 else 0)"
proof (induction xs arbitrary: k)
  case Nil
  then show ?case by simp
next
  case (Cons x xs)
  then show ?case by (cases k) auto
qed

lemma set_update_all: "\<forall>c \<in> set cs. Q c \<Longrightarrow> Q y \<Longrightarrow> \<forall>c \<in> set (cs[k := y]). Q c"
  by (metis insertE set_update_subset_insert subsetD)

lemma not_won_waiting: "waiting i c \<Longrightarrow> \<not> won i c"
  by (auto simp: waiting_def won_def claimed_def)

lemma step_before:
  assumes inv: "before_claim i (cs, s)" and k: "k < length cs"
  shows "before_claim i (cs[k := fst (step now (cs ! k) s)], snd (step now (cs ! k) s))
       \<or> after_claim i (cs[k := fst (step now (cs ! k) s)], snd (step now (cs ! k) s))"
proof -
  from inv obtain p where d: "distinct (map id_c s)" and p: "pending s = [p]" "id_c p = i"
    and w: "\<forall>c \<in> set cs. waiting i c"
    by (auto simp: before_claim_def)
  from k w have wk: "waiting i (cs ! k)" by simp
  have pin: "p \<in> set s" and pst: "status p = PENDING"
    using pending_single[OF p(1)] by simp_all
  show ?thesis
  proof (cases "cs ! k")
    case Start
    have "step now Start s = (Selected p, s)"
      using p by (simp add: step_def select_oldest_pending_def pending_def[symmetric])
    moreover have "waiting i (Selected p)" using p by (simp add: waiting_def)
    ultimately have "before_claim i (cs[k := fst (step now (cs ! k) s)], snd (step now (cs ! k) s))"
      using Start d p w by (auto simp: before_claim_def intro: set_update_all[rule_format])
    then show ?thesis ..
  next
    case (Selected q)
    with wk have q: "id_c q = i" by (simp add: waiting_def)
    let ?s' = "update_where (claim_where i) now (claim_updates now) s"
    have "claim_where i p" using p pst by (simp add: claim_where_def)
    with pin have "filter (claim_where i) s \<noteq> []"
      by (auto simp: filter_empty_conv)
    then have n: "affected (claim_where i) s \<noteq> 0" by (simp add: affected_def)
    then have st: "step now (Selected q) s = (Updated i, ?s')"
      using q by (simp add: step_def Let_def)
    have f: "findById i ?s' = Some (apply_updates now (claim_updates now) p)"
      using findById_distinct[OF d pin] p(2) \<open>claim_where i p\<close>
      by (simp add: findById_update_where_gen)
    have cnt0: "length (filter (won i) cs) = 0"
      using w by (auto simp: filter_empty_conv dest: not_won_waiting)
    have "length (filter (won i) (cs[k := Updated i])) + (if won i (cs ! k) then 1 else 0)
        = length (filter (won i) cs) + (if won i (Updated i) then 1 else 0)"
      using k by (rule length_filter_update)
    then have cnt: "length (filter (won i) (cs[k := Updated i])) = 1"
      using cnt0 not_won_waiting[OF wk] by (simp add: won_def)
    have all: "\<forall>c \<in> set (cs[k := Updated i]). won i c \<or> lost i c"
      using w by (intro set_update_all) (auto simp: lost_def won_def)
    have "after_claim i (cs[k := Updated i], ?s')"
      using d f cnt all pending_after_claim[OF p]
      by (simp add: after_claim_def map_id_update_where status_claimed)
    then show ?thesis using Selected st by simp
  next
    case (Updated j)
    with wk show ?thesis by (simp add: waiting_def)
  next
    case (Returned r)
    with wk show ?thesis by (simp add: waiting_def)
  qed
qed

lemma step_after:
  assumes inv: "after_claim i (cs, s)" and k: "k < length cs"
  shows "after_claim i (cs[k := fst (step now (cs ! k) s)], snd (step now (cs ! k) s))"
proof -
  from inv obtain r where d: "distinct (map id_c s)" and p: "pending s = []"
    and r: "findById i s = Some r" "status r = IN_PROGRESS" "startedAt r \<noteq> None"
    and w: "\<forall>c \<in> set cs. won i c \<or> lost i c"
    and cnt: "length (filter (won i) cs) = 1"
    by (auto simp: after_claim_def)
  from k w have wk: "won i (cs ! k) \<or> lost i (cs ! k)" by simp
  have key: "won i c' = won i (cs ! k) \<Longrightarrow> won i c' \<or> lost i c' \<Longrightarrow> after_claim i (cs[k := c'], s)" for c'
  proof -
    assume a: "won i c' = won i (cs ! k)" and b: "won i c' \<or> lost i c'"
    have "length (filter (won i) (cs[k := c'])) + (if won i (cs ! k) then 1 else 0)
        = length (filter (won i) cs) + (if won i c' then 1 else 0)"
      using k by (rule length_filter_update)
    with a cnt have "length (filter (won i) (cs[k := c'])) = 1" by simp
    moreover have "\<forall>c \<in> set (cs[k := c']). won i c \<or> lost i c"
      using w b by (intro set_update_all) auto
    ultimately show ?thesis using d p r by (auto simp: after_claim_def)
  qed
  show ?thesis
  proof (cases "cs ! k")
    case Start
    have "step now Start s = (Returned None, s)"
      using p by (simp add: step_def select_oldest_pending_def pending_def[symmetric])
    moreover have "after_claim i (cs[k := Returned None], s)"
      using Start by (intro key) (auto simp: won_def lost_def claimed_def)
    ultimately show ?thesis using Start by simp
  next
    case (Selected q)
    have none: "\<forall>x \<in> set s. \<not> claim_where (id_c q) x"
      using p by (auto simp: pending_empty_iff claim_where_def)
    then have "affected (claim_where (id_c q)) s = 0"
      by (simp add: affected_def filter_empty_conv)
    then have "step now (Selected q) s = (Returned None, s)"
      using update_where_none[OF none] by (simp add: step_def Let_def)
    moreover have "after_claim i (cs[k := Returned None], s)"
      using Selected by (intro key) (auto simp: won_def lost_def claimed_def)
    ultimately show ?thesis using Selected by simp
  next
    case (Updated j)
    with wk have j: "j = i" by (auto simp: won_def lost_def waiting_def claimed_def)
    have "id_c r = i" using r(1) by (auto simp: findById_def dest: find_Some_mem)
    then have c: "claimed i (Returned (Some r))" using r by (simp add: claimed_def)
    have "step now (Updated j) s = (Returned (Some r), s)"
      using j r by (simp add: step_def)
    moreover have "after_claim i (cs[k := Returned (Some r)], s)"
      using Updated j c by (intro key) (auto simp: won_def)
    ultimately show ?thesis using Updated by simp
  next
    case (Returned x)
    then have "step now (cs ! k) s = (cs ! k, s)" by (simp add: step_def)
    then show ?thesis using inv by simp
  qed
qed

lemma exec_inv:
  assumes "before_claim i st \<or> after_claim i st"
  shows "before_claim i (exec st ev) \<or> after_claim i (exec st ev)"
proof -
  obtain cs s where st: "st = (cs, s)" by (cases st)
  obtain k now where ev: "ev = (k, now)" by (cases ev)
  show ?thesis
  proof (cases "k < length cs")
    case True
    then have e: "exec (cs, s) (k, now) = (cs[k := fst (step now (cs ! k) s)], snd (step now (cs ! k) s))"
      by (simp add: exec_def split_beta Let_def)
    from assms show ?thesis
      unfolding st ev e using step_before[OF _ True] step_after[OF _ True] by blast
  next
    case False
    then have "exec st ev = st" by (simp add: exec_def st ev)
    with assms show ?thesis by simp
  qed
qed

lemma run_inv:
  "before_claim i st \<or> after_claim i st \<Longrightarrow>
   before_claim i (run schedule st) \<or> after_claim i (run schedule st)"
  unfolding run_def
  by (induction schedule arbitrary: st) (simp_all add: exec_inv)


lemma rank_step: "min 3 (Suc (rank c)) \<le> rank (fst (step now c s))"
  by (cases c) (auto simp: step_def Let_def split: option.splits)

lemma length_exec: "length (fst (exec st ev)) = length (fst st)"
  by (cases st; cases ev) (simp add: exec_def split_beta Let_def)

lemma rank_exec:
  assumes "j < length (fst st)"
  shows "min 3 (rank (fst st ! j) + (if fst ev = j then 1 else 0)) \<le> rank (fst (exec st ev) ! j)"
proof -
  obtain cs s where st: "st = (cs, s)" by (cases st)
  obtain k now where ev: "ev = (k, now)" by (cases ev)
  show ?thesis
  proof (cases "k = j")
    case True
    with assms show ?thesis
      using rank_step[of "cs ! j" now s] by (simp add: exec_def st ev split_beta Let_def)
  next
    case False
    with assms show ?thesis
      by (simp add: exec_def st ev split_beta Let_def)
  qed
qed

lemma rank_run:
  "j < length (fst st) \<Longrightarrow>
   min 3 (rank (fst st ! j) + count_list (map fst schedule) j) \<le> rank (fst (run schedule st) ! j)"
proof (induction schedule arbitrary: st)
  case Nil
  then show ?case by (simp add: run_def)
next
  case (Cons ev schedule)
  have l: "j < length (fst (exec st ev))" using Cons.prems by (simp add: length_exec)
  have c: "count_list (map fst (ev # schedule)) j
         = (if fst ev = j then 1 else 0) + count_list (map fst schedule) j"
    by simp
  have s: "min 3 (rank (fst st ! j) + (if fst ev = j then 1 else 0)) \<le> rank (fst (exec st ev) ! j)"
    using Cons.prems by (rule rank_exec)
  have i: "min 3 (rank (fst (exec st ev) ! j) + count_list (map fst schedule) j)
         \<le> rank (fst (run schedule (exec st ev)) ! j)"
    using l by (rule Cons.IH)
  have r: "run (ev # schedule) st = run schedule (exec st ev)"
    by (simp add: run_def)
  show ?case
    unfolding r c using s i by arith
qed

lemma length_run: "length (fst (run schedule st)) = length (fst st)"
  unfolding run_def by (induction schedule arbitrary: st) (simp_all add: length_exec)

lemma rank_3: "3 \<le> rank c \<Longrightarrow> \<exists>r. c = Returned r"
  by (cases c) simp_all

lemma filter_length_1: "length (filter P xs) = 1 \<Longrightarrow> \<exists>x. filter P xs = [x] \<and> P x \<and> x \<in> set xs"
proof -
  assume a: "length (filter P xs) = 1"
  then obtain x where x: "filter P xs = [x]"
    by (cases "filter P xs") simp_all
  from arg_cong[OF x, of set] have "{y \<in> set xs. P y} = {x}" by simp
  then have "P x \<and> x \<in> set xs" by blast
  with x show ?thesis by blast
qed

lemma returned_cases:
  assumes "won i c \<or> lost i c" and "c = Returned x"
  shows "(won i c \<longleftrightarrow> c \<noteq> Returned None) \<and> (won i c \<longrightarrow> claimed i c \<and> x \<noteq> None)"
  using assms by (cases x) (simp_all add: won_def lost_def waiting_def claimed_def)

text \<open>
  One claimer alone, taking its three steps in a row, is \<open>fetchAndLockPendingCall\<close>.
\<close>

lemma fetchAndLockPendingCall_steps:
  "run [(0, now), (0, now), (0, now)] ([Start], s)
     = ([Returned (fst (fetchAndLockPendingCall now s))], snd (fetchAndLockPendingCall now s))"
proof (cases "select_oldest_pending s")
  case None
  then show ?thesis
    by (simp add: run_def exec_def step_def fetchAndLockPendingCall_def)
next
  case (Some q)
  then show ?thesis
    by (simp add: run_def exec_def step_def fetchAndLockPendingCall_def Let_def)
qed


text \<open>
  C1. Let the table have unique ids and exactly one \<open>PENDING\<close> row \<open>p\<close>, and let
  \<open>n > 0\<close> claimers run \<open>fetchAndLockPendingCall\<close> with their statements interleaved in
  any order in which each claimer gets its three statements. Then every claimer has
  returned, exactly one of the results is a row, that row is \<open>p\<close> with status
  \<open>IN_PROGRESS\<close> and \<open>startedAt\<close> set, and the other \<open>n - 1\<close> results are none.
\<close>

theorem claim_race:
  assumes single: "filter (\<lambda>r. status r = PENDING) s0 = [p]"
    and keys: "distinct (map id_c s0)"
    and n: "0 < n"
    and fair: "\<forall>j<n. 3 \<le> count_list (map fst schedule) j"
  shows "\<exists>r. length (fst (run schedule (replicate n Start, s0))) = n
           \<and> filter (\<lambda>c. c \<noteq> Returned None) (fst (run schedule (replicate n Start, s0)))
               = [Returned (Some r)]
           \<and> id_c r = id_c p \<and> status r = IN_PROGRESS \<and> startedAt r \<noteq> None
           \<and> length (filter (\<lambda>c. c = Returned None) (fst (run schedule (replicate n Start, s0)))) = n - 1"
proof -
  define st where "st = run schedule (replicate n Start, s0)"
  define cs where "cs = fst st"
  define i where "i = id_c p"
  have len: "length cs = n" by (simp add: cs_def st_def length_run)
  have "before_claim i (replicate n Start, s0)"
    using single keys by (simp add: before_claim_def pending_def waiting_def i_def)
  then have "before_claim i (replicate n Start, s0) \<or> after_claim i (replicate n Start, s0)" ..
  then have inv: "before_claim i st \<or> after_claim i st"
    unfolding st_def by (rule run_inv)
  have ret: "\<exists>x. c = Returned x" if "c \<in> set cs" for c
  proof -
    from that obtain j where j: "j < n" "cs ! j = c"
      using len by (auto simp: in_set_conv_nth)
    have "j < length (fst (replicate n Start, s0))" using j(1) by simp
    then have "min 3 (rank (fst (replicate n Start, s0) ! j) + count_list (map fst schedule) j)
        \<le> rank (fst (run schedule (replicate n Start, s0)) ! j)"
      by (rule rank_run)
    moreover have "3 \<le> count_list (map fst schedule) j" using fair j(1) by blast
    ultimately have "3 \<le> rank c" using j(2) by (simp add: cs_def st_def)
    then show ?thesis by (rule rank_3)
  qed
  have "\<not> before_claim i st"
  proof
    assume "before_claim i st"
    then have w: "\<forall>c \<in> set cs. waiting i c" by (simp add: before_claim_def cs_def)
    from n len have m: "cs ! 0 \<in> set cs" by simp
    from w m have "waiting i (cs ! 0)" by blast
    moreover from ret[OF m] obtain x where "cs ! 0 = Returned x" by blast
    ultimately show False by (simp add: waiting_def)
  qed
  with inv have a: "after_claim i st" by simp
  then have wl: "\<forall>c \<in> set cs. won i c \<or> lost i c"
    and cnt: "length (filter (won i) cs) = 1"
    by (simp_all add: after_claim_def cs_def)
  have eq: "(c \<noteq> Returned None) = won i c" if "c \<in> set cs" for c
  proof -
    from ret[OF that] obtain x where x: "c = Returned x" by blast
    from wl that have "won i c \<or> lost i c" by blast
    from returned_cases[OF this x] show ?thesis by simp
  qed
  have f: "filter (\<lambda>c. c \<noteq> Returned None) cs = filter (won i) cs"
    by (rule filter_cong[OF refl]) (rule eq)
  from cnt obtain c where c: "filter (won i) cs = [c]" "won i c" "c \<in> set cs"
    using filter_length_1 by blast
  from ret[OF c(3)] obtain x where x: "c = Returned x" by blast
  from wl c(3) have "won i c \<or> lost i c" by blast
  from returned_cases[OF this x] c(2) have "claimed i c" "x \<noteq> None" by simp_all
  then obtain r where r: "c = Returned (Some r)" "id_c r = i" "status r = IN_PROGRESS" "startedAt r \<noteq> None"
    using x by (cases x) (simp_all add: claimed_def)
  have "length (filter (\<lambda>c. c \<noteq> Returned None) cs) + length (filter (\<lambda>c. \<not> c \<noteq> Returned None) cs) = length cs"
    by (rule sum_length_filter_compl)
  with f cnt len have rest: "length (filter (\<lambda>c. c = Returned None) cs) = n - 1" by simp
  have "length cs = n
           \<and> filter (\<lambda>c. c \<noteq> Returned None) cs = [Returned (Some r)]
           \<and> id_c r = id_c p \<and> status r = IN_PROGRESS \<and> startedAt r \<noteq> None
           \<and> length (filter (\<lambda>c. c = Returned None) cs) = n - 1"
    using len f c(1) r rest by (simp add: i_def)
  then show ?thesis unfolding cs_def st_def by (rule exI)
qed


theorem claim_race_witness:
  "filter (\<lambda>r. status r = PENDING) [example_call, pending_call] = [pending_call]
   \<and> distinct (map id_c [example_call, pending_call])
   \<and> count_list (map fst race_schedule) 0 = 3
   \<and> count_list (map fst race_schedule) 1 = 3
   \<and> count_list (map fst race_schedule) 2 = 3
   \<and> (\<exists>r. filter (\<lambda>c. c \<noteq> Returned None)
             (fst (run race_schedule (replicate 3 Start, [example_call, pending_call])))
               = [Returned (Some r)]
         \<and> id_c r = ''c7'' \<and> status r = IN_PROGRESS \<and> startedAt r \<noteq> None)
   \<and> length (filter (\<lambda>c. c = Returned None)
             (fst (run race_schedule (replicate 3 Start, [example_call, pending_call])))) = 2"
proof -
  have single: "filter (\<lambda>r. status r = PENDING) [example_call, pending_call] = [pending_call]"
    by (simp add: example_call_def pending_call_def)
  have keys: "distinct (map id_c [example_call, pending_call])"
    by (simp add: example_call_def pending_call_def)
  have fair: "\<forall>j<3. 3 \<le> count_list (map fst race_schedule) j"
  proof (intro allI impI)
    fix j :: nat assume "j < 3"
    then have "j = 0 \<or> j = 1 \<or> j = 2" by arith
    then show "3 \<le> count_list (map fst race_schedule) j"
      by (auto simp: race_schedule_def)
  qed
  have i: "id_c pending_call = ''c7''" by (simp add: pending_call_def)
  have counts: "count_list (map fst race_schedule) 0 = 3" "count_list (map fst race_schedule) 1 = 3"
    "count_list (map fst race_schedule) 2 = 3"
    by (simp_all add: race_schedule_def)
  show ?thesis
    using single keys counts claim_race [OF single keys _ fair] i
    by auto
qed



section \<open>Retry with backoff\<close>

text \<open>
  C3. The first retryable failure of the example call, which was claimed at time 2000,
  with \<open>maxRetryAttempts = 3\<close> at time 5000: the row returns to \<open>PENDING\<close> with
  \<open>attempts = 1\<close> and \<open>lastError\<close> the message, and the queue holds the call with the
  time \<open>5000 + 2^1 * 1000\<close>; but \<open>startedAt\<close> is still the time 2000 of the claim,
  because the update carries \<open>startedAt: undefined\<close>, which sets no column.
\<close>

theorem handleCallFailure_retry_at_example:
  "handleCallFailure 3 5000 example_call (RetryableError ''connect ECONNREFUSED'') example_service
     = \<lparr>calls = [\<lparr>id_c = ''c1'',
           payload = \<lparr>to = ''+966501234567'', scriptId = ''welcomeFlow'', metadata = None\<rparr>,
           status = PENDING, attempts = 1, lastError = Some ''connect ECONNREFUSED'',
           createdAt = 1000, startedAt = Some 2000, endedAt = None, updatedAt = 5000,
           externalCallId = None\<rparr>],
         queue = [(''c1'', 7000)]\<rparr>"
  by (simp add: handleCallFailure_def example_call_def example_service_def updateById_def
      update_where_def apply_updates_def no_updates_def set_col_def set_nullable_def
      enqueueCallWithDelay_def Let_def)


text \<open>
  C2. After that failure the queue holds the call with the eligibility time 7000, and
  the claim operation run at time 5001 returns the call and moves it to
  \<open>IN_PROGRESS\<close>: the select of \<open>fetchAndLockPendingCall\<close> looks at the status only,
  and nothing reads the queue.
\<close>

theorem claim_before_eligibility:
  "queue (handleCallFailure 3 5000 example_call (RetryableError ''connect ECONNREFUSED'') example_service)
     = [(''c1'', 7000)]
   \<and> fst (fetchAndLockPendingCall 5001
        (calls (handleCallFailure 3 5000 example_call (RetryableError ''connect ECONNREFUSED'')
                  example_service)))
     = Some \<lparr>id_c = ''c1'',
           payload = \<lparr>to = ''+966501234567'', scriptId = ''welcomeFlow'', metadata = None\<rparr>,
           status = IN_PROGRESS, attempts = 1, lastError = Some ''connect ECONNREFUSED'',
           createdAt = 1000, startedAt = Some 5001, endedAt = None, updatedAt = 5001,
           externalCallId = None\<rparr>"
  by (simp add: handleCallFailure_def example_call_def example_service_def updateById_def
      update_where_def apply_updates_def no_updates_def set_col_def set_nullable_def
      enqueueCallWithDelay_def Let_def fetchAndLockPendingCall_def select_oldest_pending_def
      affected_def claim_where_def claim_updates_def findById_def)


section \<open>Creating a call for a number that is active\<close>

text \<open>
  C8. A valid create request for the number of the example call, which is
  \<open>IN_PROGRESS\<close>: the service inserts nothing and fails with the message
  \<open>Call already active for phone number: ...\<close>; the controller looks for
  \<open>already in progress\<close> in the message, does not find it, and answers with status 500
  and \<open>Internal server error\<close> instead of 409 and \<open>Conflict\<close>.
\<close>

theorem createCall_conflict_at_example:
  "createCall ''c2'' 3000
      \<lparr>to_r = ''+966501234567'', scriptId_r = ''welcomeFlow'', metadata_r = None\<rparr> [example_call]
     = Inl (Error ''Call already active for phone number: +966501234567 (Status: IN_PROGRESS)'')
   \<and> createCall_controller ''c2'' 3000 active_body [example_call]
     = (Failure 500 ''Internal server error'' ''Failed to create call'', [example_call])"
  by (simp add: createCall_controller_def validateCreateCall_def validate_to_def
      validate_scriptId_def phone_pattern_def is_digit_def active_body_def createCall_def
      findActiveCallByPhoneNumber_def example_call_def)


section \<open>Terminal rows and the completion correlator\<close>

text \<open>
  C5, as stated, fails: the correlator does not look at the current status. A \<open>BUSY\<close>
  signal for a call that is already \<open>COMPLETED\<close> turns it into \<open>FAILED\<close> and
  overwrites \<open>lastError\<close> and \<open>endedAt\<close>.
\<close>

theorem late_signal_overwrites:
  "status completed_call = COMPLETED
   \<and> handleWebhookCallback 9500 busy_signal [completed_call]
       = [completed_call\<lparr>status := FAILED, lastError := Some ''AI call BUSY'',
                          endedAt := Some 9000, updatedAt := 9500\<rparr>]
   \<and> handleWebhookCallback 9500 busy_signal [completed_call] \<noteq> [completed_call]"
  by (simp add: completed_call_def dispatched_call_def example_call_def busy_signal_def
      handleWebhookCallback_def findByExternalCallId_def updateById_def update_where_def
      apply_updates_def no_updates_def set_col_def set_nullable_def Let_def)

lemma keeps_terminal_update_where:
  assumes "\<And>r. P r \<Longrightarrow> \<not> terminal r"
  shows "keeps_terminal s (update_where P now u s)"
  using assms
  by (auto simp: keeps_terminal_def update_where_def list_all2_map2 intro: list_all2_refl list.rel_refl_strong)

lemma keeps_terminal_refl: "keeps_terminal s s"
  by (simp add: keeps_terminal_def list_all2_refl)

lemma keeps_terminal_claim: "keeps_terminal s (snd (fetchAndLockPendingCall now s))"
proof (cases "select_oldest_pending s")
  case None
  then show ?thesis by (simp add: fetchAndLockPendingCall_def keeps_terminal_refl)
next
  case (Some q)
  have "keeps_terminal s (update_where (claim_where (id_c q)) now (claim_updates now) s)"
    by (rule keeps_terminal_update_where) (simp add: claim_where_def terminal_def)
  with Some show ?thesis by (simp add: fetchAndLockPendingCall_def Let_def)
qed

lemma updateCall_terminal:
  "findById i s = Some e \<Longrightarrow> terminal e \<Longrightarrow>
   updateCall now i d s = Inl (Error ''Can only update calls with PENDING status'')"
  by (auto simp: updateCall_def terminal_def)

lemma find_update_where_keep:
  assumes "\<And>r. Q (apply_updates now u r) = Q r"
  shows "find Q (update_where P now u s) = map_option (\<lambda>r. if P r then apply_updates now u r else r) (find Q s)"
  using assms by (induction s) (simp_all add: update_where_def)

lemma externalCallId_kept:
  "externalCallId_u u = Absent \<Longrightarrow> externalCallId (apply_updates now u r) = externalCallId r"
  by (simp add: apply_updates_def set_nullable_def)

lemma apply_updates_twice:
  "forget_updatedAt (apply_updates now' u (apply_updates now u r)) = forget_updatedAt (apply_updates now u r)"
  by (simp add: forget_updatedAt_def apply_updates_def set_col_def set_nullable_def
      split: field.splits)

lemma update_where_twice:
  "map forget_updatedAt (update_where (\<lambda>r. id_c r = i) now' u (update_where (\<lambda>r. id_c r = i) now u s))
     = map forget_updatedAt (update_where (\<lambda>r. id_c r = i) now u s)"
  by (simp add: update_where_def id_c_apply_updates apply_updates_twice)

lemma handleWebhookCallback_twice:
  "map forget_updatedAt (handleWebhookCallback now' p (handleWebhookCallback now p s))
     = map forget_updatedAt (handleWebhookCallback now p s)"
proof (cases "findByExternalCallId (callId p) s")
  case None
  then show ?thesis by (simp add: handleWebhookCallback_def)
next
  case (Some e)
  define u where "u = no_updates\<lparr>status_u := Value (if status_w p = CB_COMPLETED then COMPLETED else FAILED),
                             endedAt_u := Value (completedAt p),
                             lastError_u := (if status_w p = CB_COMPLETED then Undefined
                                else Value (''AI call '' @ callback_status_text (status_w p)))\<rparr>"
  have x: "externalCallId_u u = Absent" by (simp add: u_def no_updates_def)
  have first: "handleWebhookCallback now p s = update_where (\<lambda>r. id_c r = id_c e) now u s"
    using Some by (simp add: handleWebhookCallback_def updateById_def Let_def u_def)
  have "findByExternalCallId (callId p) (update_where (\<lambda>r. id_c r = id_c e) now u s)
      = Some (if id_c e = id_c e then apply_updates now u e else e)"
    unfolding findByExternalCallId_def
    using Some externalCallId_kept[OF x]
    by (subst find_update_where_keep) (simp_all add: findByExternalCallId_def)
  then have again: "findByExternalCallId (callId p) (handleWebhookCallback now p s)
      = Some (apply_updates now u e)"
    by (simp add: first)
  have second: "handleWebhookCallback now' p (handleWebhookCallback now p s)
      = update_where (\<lambda>r. id_c r = id_c e) now' u (update_where (\<lambda>r. id_c r = id_c e) now u s)"
    using again
    by (simp add: handleWebhookCallback_def[of now' p] updateById_def Let_def u_def[symmetric]
        id_c_apply_updates first)
  have "map forget_updatedAt (handleWebhookCallback now' p (handleWebhookCallback now p s))
      = map forget_updatedAt
          (update_where (\<lambda>r. id_c r = id_c e) now' u (update_where (\<lambda>r. id_c r = id_c e) now u s))"
    by (simp only: second)
  also have "\<dots> = map forget_updatedAt (update_where (\<lambda>r. id_c r = id_c e) now u s)"
    by (rule update_where_twice)
  also have "\<dots> = map forget_updatedAt (handleWebhookCallback now p s)"
    by (simp only: first)
  finally show ?thesis .
qed


text \<open>
  C5, amended. The update operation rejects a terminal row, and the claim operation
  keeps every terminal row as it is. The completion correlator applies
  the mapped status and \<open>endedAt\<close> of a signal to the row its correlation id matches,
  whatever the status of that row; delivering the same signal a second time leaves
  every row as the first delivery left it, up to \<open>updatedAt\<close>.
\<close>

theorem terminal_records:
  "(\<forall>e. findById i s = Some e \<and> terminal e \<longrightarrow>
        updateCall now i d s = Inl (Error ''Can only update calls with PENDING status''))
   \<and> keeps_terminal s (snd (fetchAndLockPendingCall now s))
   \<and> (\<forall>e. findByExternalCallId (callId p) s = Some e \<longrightarrow>
        (\<exists>r'. findById (id_c e) (handleWebhookCallback now p s) = Some r'
           \<and> status r' = (if status_w p = CB_COMPLETED then COMPLETED else FAILED)
           \<and> endedAt r' = Some (completedAt p)))
   \<and> map forget_updatedAt (handleWebhookCallback now' p (handleWebhookCallback now p s))
       = map forget_updatedAt (handleWebhookCallback now p s)"
proof -
  have "\<exists>r'. findById (id_c e) (handleWebhookCallback now p s) = Some r'
           \<and> status r' = (if status_w p = CB_COMPLETED then COMPLETED else FAILED)
           \<and> endedAt r' = Some (completedAt p)"
    if e: "findByExternalCallId (callId p) s = Some e" for e
  proof -
    from e have "e \<in> set s"
      by (auto simp: findByExternalCallId_def dest: find_Some_mem)
    then obtain r where r: "findById (id_c e) s = Some r"
      using findById_exists by blast
    show ?thesis
      using e r
      by (simp add: handleWebhookCallback_def Let_def findById_updateById apply_updates_def
          set_col_def set_nullable_def no_updates_def)
  qed
  then show ?thesis
    using updateCall_terminal keeps_terminal_claim handleWebhookCallback_twice
    by blast
qed

theorem terminal_records_witness:
  "findById ''c1'' [completed_call, pending_call] = Some completed_call
   \<and> terminal completed_call
   \<and> updateCall 9500 ''c1'' (Some script_delta) [completed_call, pending_call]
       = Inl (Error ''Can only update calls with PENDING status'')
   \<and> findByExternalCallId (callId busy_signal) [completed_call, pending_call] = Some completed_call
   \<and> (\<exists>r'. findById ''c1'' (handleWebhookCallback 9500 busy_signal [completed_call, pending_call]) = Some r'
         \<and> status r' = FAILED \<and> endedAt r' = Some 9000)"
proof -
  have f: "findById ''c1'' [completed_call, pending_call] = Some completed_call"
    by (simp add: findById_def completed_call_def dispatched_call_def example_call_def)
  have t: "terminal completed_call"
    by (simp add: terminal_def completed_call_def)
  have x: "findByExternalCallId (callId busy_signal) [completed_call, pending_call] = Some completed_call"
    by (simp add: findByExternalCallId_def busy_signal_def completed_call_def dispatched_call_def)
  have i: "id_c completed_call = ''c1''"
    by (simp add: completed_call_def dispatched_call_def example_call_def)
  have s: "status_w busy_signal = CB_BUSY" "completedAt busy_signal = 9000"
    by (simp_all add: busy_signal_def)
  show ?thesis
    using f t x
      terminal_records [of "''c1''" "[completed_call, pending_call]" 9500 "Some script_delta"
        busy_signal 9600]
    by (auto simp: i s)
qed


section \<open>Updating the payload of a pending call\<close>

text \<open>
  C10. For every row with status \<open>PENDING\<close> and every payload delta, \<open>updateCall\<close>
  returns the call whose payload has the value of the delta for each key the delta
  names and the previous value for each key it does not name, with \<open>id\<close>, \<open>status\<close>,
  \<open>attempts\<close>, \<open>lastError\<close>, \<open>createdAt\<close>, \<open>startedAt\<close> and \<open>endedAt\<close> as before;
  the row of the table is that call.
\<close>

theorem updateCall_merges:
  assumes "findById i s = Some e" and "status e = PENDING"
  shows "\<exists>c s'. updateCall now i (Some d) s = Inr (Some c, s')
           \<and> map_option entityToCall (findById i s') = Some c
           \<and> to (payload c) = (case to_d d of None \<Rightarrow> to (payload e) | Some v \<Rightarrow> v)
           \<and> scriptId (payload c) = (case scriptId_d d of None \<Rightarrow> scriptId (payload e) | Some v \<Rightarrow> v)
           \<and> metadata (payload c) = (case metadata_d d of None \<Rightarrow> metadata (payload e) | Some v \<Rightarrow> Some v)
           \<and> id_c c = id_c e \<and> status c = status e \<and> attempts c = attempts e
           \<and> lastError c = lastError e \<and> createdAt c = createdAt e
           \<and> startedAt c = startedAt e \<and> endedAt c = endedAt e"
  using assms
  by (simp add: updateCall_def updateById_def Let_def findById_update_where apply_updates_def
        set_col_def set_nullable_def no_updates_def entityToCall_def spread_def)

theorem updateCall_merges_witness:
  "findById ''c7'' [completed_call, pending_call] = Some pending_call
   \<and> status pending_call = PENDING
   \<and> (\<exists>c s'. updateCall 9500 ''c7'' (Some script_delta) [completed_call, pending_call] = Inr (Some c, s')
         \<and> to (payload c) = ''+966500000007'' \<and> scriptId (payload c) = ''newScript''
         \<and> metadata (payload c) = Some [(''priority'', ''high'')]
         \<and> id_c c = ''c7'' \<and> status c = PENDING \<and> attempts c = 0 \<and> lastError c = None
         \<and> createdAt c = 1000 \<and> startedAt c = None \<and> endedAt c = None)"
proof -
  have f: "findById ''c7'' [completed_call, pending_call] = Some pending_call"
    by (simp add: findById_def completed_call_def dispatched_call_def example_call_def pending_call_def)
  have t: "status pending_call = PENDING"
    by (simp add: pending_call_def)
  have v: "to (payload pending_call) = ''+966500000007''" "id_c pending_call = ''c7''"
    "attempts pending_call = 0" "lastError pending_call = None" "createdAt pending_call = 1000"
    "startedAt pending_call = None" "endedAt pending_call = None"
    by (simp_all add: pending_call_def)
  have d: "to_d script_delta = None" "scriptId_d script_delta = Some ''newScript''"
    "metadata_d script_delta = Some [(''priority'', ''high'')]"
    by (simp_all add: script_delta_def)
  show ?thesis
    using f t updateCall_merges [OF f t, of 9500 script_delta]
    by (auto simp: v d)
qed


section \<open>Classification of dispatch outcomes\<close>

lemma initiateCall_NoResponse:
  "initiateCall (NoResponse c m) =
     Inl (if c = ''ECONNREFUSED'' \<or> c = ''ETIMEDOUT'' then RetryableError m else NonRetryableError m)"
  by (simp add: initiateCall_def axios_post_def classify_def isRetryableError_def)

lemma initiateCall_HttpReply:
  "initiateCall (HttpReply st b) =
     (if st = 202 then Inr b
      else if 200 \<le> st \<and> st < 300 then Inl (NonRetryableError (''Unexpected response status: '' @ show_nat st))
      else if 500 \<le> st \<or> st = 429 then Inl (RetryableError (''Request failed with status code '' @ show_nat st))
      else Inl (NonRetryableError (''Request failed with status code '' @ show_nat st)))"
  by (simp add: initiateCall_def axios_post_def classify_def isRetryableError_def)


text \<open>
  C7. The provider does not answer within the 30 seconds that \<open>initiateCall\<close> gives the
  request: the error has the code \<open>ECONNABORTED\<close>, which \<open>isRetryableError\<close> does not
  test, so this timeout is classified \<open>NonRetryableError\<close>; a reset connection is
  classified the same way. Only the codes \<open>ECONNREFUSED\<close> and \<open>ETIMEDOUT\<close> make a
  transport error retryable.
\<close>

theorem initiateCall_timeout_at_example:
  "initiateCall request_timeout = Inl (NonRetryableError ''timeout of 30000ms exceeded'')
   \<and> initiateCall connection_reset = Inl (NonRetryableError ''read ECONNRESET'')"
  by (simp add: request_timeout_def connection_reset_def initiateCall_NoResponse)

section \<open>Listing calls\<close>





end
